theory Spec2Isabelle
  imports Main "HOL-Library.List_Lexorder"
begin

section \<open>The store of \<open>database.py\<close>\<close>

text \<open>
  The SQLite file holds three tables. A row of \<open>mistakes\<close> has the columns
  \<open>id, user, description, date, priority, closed\<close>; a row of \<open>comments\<close> has
  \<open>id, mistake_id, user_id, text, date\<close>; \<open>users\<close> has the single primary-key column
  \<open>name\<close>. Integer columns are Python/SQLite integers (\<open>int\<close>).

  A Python \<open>str\<close> is the list of its Unicode code points (\<open>pystr\<close>); \<open>str ''abc''\<close> writes an
  ASCII literal. SQLite stores the text as UTF-8 and orders it bytewise, which is the
  lexicographic order of the code points.

  A \<open>date\<close> is the value of \<open>datetime.now()\<close>; it is stored as ISO text whose string order is
  the chronological order, so the model keeps it as a point on an integer time line, in
  microseconds since 1970-01-01 00:00:00.
\<close>

type_synonym pystr = "nat list"

abbreviation str :: "string \<Rightarrow> pystr" where
  "str s \<equiv> map of_char s"

record mistake =
  m_id :: int
  m_user :: pystr
  m_description :: pystr
  m_date :: int
  m_priority :: int
  m_closed :: int

record comment =
  c_id :: int
  c_mistake_id :: int
  c_user_id :: int
  c_text :: pystr
  c_date :: int

text \<open>
  Both \<open>id\<close> columns are \<open>INTEGER PRIMARY KEY AUTOINCREMENT\<close>: the store keeps, per table,
  the largest row id it has ever handed out (\<open>sqlite_sequence\<close>), and a new row gets that
  value plus one. \<open>DELETE\<close> does not reset it.
\<close>

record db =
  users :: "pystr list"
  mistakes :: "mistake list"
  comments :: "comment list"
  mistakes_seq :: int
  comments_seq :: int

definition db0 :: db where
  "db0 = \<lparr>users = [], mistakes = [], comments = [], mistakes_seq = 0, comments_seq = 0\<rparr>"

subsection \<open>Exceptions and store failures\<close>

text \<open>
  \<open>IntegrityError\<close> and \<open>OperationalError\<close> are subclasses of \<open>sqlite3.Error\<close>;
  \<open>OverflowError\<close> and \<open>AttributeError\<close> are not.
\<close>

datatype exn = IntegrityError | OperationalError | OverflowError | AttributeError


text \<open>
  A store-level failure (disk error, locked file, ...) is an input of the environment. A call
  of a method issues its statements (\<open>cursor.execute\<close>, \<open>conn.commit\<close>) in order, numbered
  from 0; the fault \<open>Some k\<close> says that statement \<open>k\<close> of this call raises
  \<open>sqlite3.OperationalError\<close>, and \<open>None\<close> that the store answers every statement. A
  statement that raises has no effect; the effects of the statements before it stay visible
  on the connection.
\<close>

type_synonym fault = "nat option"

definition store_fails :: "fault \<Rightarrow> nat \<Rightarrow> bool" where
  "store_fails f n = (case f of None \<Rightarrow> False | Some k \<Rightarrow> k < n)"

text \<open>
  \<open>cursor.execute\<close> binds its parameters before it runs the statement, and the store
  failures of the model are failures of running it. A Python integer that does not fit
  SQLite's signed 64-bit \<open>INTEGER\<close> makes the binding raise \<open>OverflowError\<close> ("Python int
  too large to convert to SQLite INTEGER"): the statement does not run, and
  \<open>except sqlite3.Error\<close> does not catch it.
\<close>

definition fits_int64 :: "int \<Rightarrow> bool" where
  "fits_int64 i = (- (2 ^ 63) \<le> i \<and> i < 2 ^ 63)"

subsection \<open>Staff members\<close>


text \<open>\<open>add_user\<close> catches \<open>sqlite3.IntegrityError\<close> only (the primary key rejects a second row
  with the same name).\<close>

definition add_user :: "fault \<Rightarrow> pystr \<Rightarrow> db \<Rightarrow> (exn + bool) \<times> db" where
  "add_user f name st =
     (if f = Some 0 then (Inl OperationalError, st)
      else if name \<in> set (users st) then (Inr False, st)
      else let st1 = st\<lparr>users := users st @ [name]\<rparr> in
        if f = Some 1 then (Inl OperationalError, st1)
        else (Inr True, st1))"

definition delete_user :: "fault \<Rightarrow> pystr \<Rightarrow> db \<Rightarrow> (exn + bool) \<times> db" where
  "delete_user f name st =
     (if f = Some 0 then (Inr False, st)
      else let active_mistakes =
                 int (length (filter (\<lambda>m. m_user m = name \<and> m_closed m = 0) (mistakes st)))
      in if active_mistakes > 0 then (Inr False, st)
      else if f = Some 1 then (Inr False, st)
      else let rowcount = int (length (filter (\<lambda>u. u = name) (users st)));
               st1 = st\<lparr>users := filter (\<lambda>u. u \<noteq> name) (users st)\<rparr>
      in if f = Some 2 then (Inr False, st1)
      else (Inr (rowcount > 0), st1))"

subsection \<open>Incidents and comments\<close>

text \<open>\<open>add_mistake\<close> binds two texts, the time and a priority that is 1 or 2 by then.\<close>

definition add_mistake ::
  "fault \<Rightarrow> int \<Rightarrow> pystr \<Rightarrow> pystr \<Rightarrow> int \<Rightarrow> db \<Rightarrow> (exn + int option) \<times> db" where
  "add_mistake f now user description priority st =
     (let priority = (if priority \<notin> set [1, 2] then 1 else priority) in
      if f = Some 0 then (Inr None, st)
      else let lastrowid = mistakes_seq st + 1;
               row = \<lparr>m_id = lastrowid, m_user = user, m_description = description,
                      m_date = now, m_priority = priority, m_closed = 0\<rparr>;
               st1 = st\<lparr>mistakes := mistakes st @ [row], mistakes_seq := lastrowid\<rparr>
      in if f = Some 1 then (Inr None, st1)
      else (Inr (Some lastrowid), st1))"

text \<open>\<open>mistake_exists\<close> has no handler at all.\<close>

definition mistake_exists :: "fault \<Rightarrow> int \<Rightarrow> db \<Rightarrow> exn + bool" where
  "mistake_exists f mistake_id st =
     (if \<not> fits_int64 mistake_id then Inl OverflowError
      else if f = Some 0 then Inl OperationalError
      else Inr (int (length (filter (\<lambda>m. m_id m = mistake_id) (mistakes st))) > 0))"

definition close_mistake :: "fault \<Rightarrow> int \<Rightarrow> db \<Rightarrow> (exn + bool) \<times> db" where
  "close_mistake f mistake_id st =
     (if \<not> fits_int64 mistake_id then (Inl OverflowError, st)
      else if f = Some 0 then (Inr False, st)
      else let st1 = st\<lparr>mistakes :=
                 map (\<lambda>m. if m_id m = mistake_id then m\<lparr>m_closed := 1\<rparr> else m) (mistakes st)\<rparr>
      in if f = Some 1 then (Inr False, st1)
      else (Inr True, st1))"

definition add_comment ::
  "fault \<Rightarrow> int \<Rightarrow> int \<Rightarrow> int \<Rightarrow> pystr \<Rightarrow> db \<Rightarrow> (exn + bool) \<times> db" where
  "add_comment f now mistake_id user_id txt st =
     (if \<not> fits_int64 mistake_id \<or> \<not> fits_int64 user_id then (Inl OverflowError, st)
      else if f = Some 0 then (Inr False, st)
      else let rowid = comments_seq st + 1;
               row = \<lparr>c_id = rowid, c_mistake_id = mistake_id, c_user_id = user_id,
                      c_text = txt, c_date = now\<rparr>;
               st1 = st\<lparr>comments := comments st @ [row], comments_seq := rowid\<rparr>
      in if f = Some 1 then (Inr False, st1)
      else (Inr True, st1))"

definition clear_mistakes :: "fault \<Rightarrow> db \<Rightarrow> (exn + bool) \<times> db" where
  "clear_mistakes f st =
     (if f = Some 0 then (Inr False, st)
      else let st1 = st\<lparr>comments := []\<rparr> in
      if f = Some 1 then (Inr False, st1)
      else let st2 = st1\<lparr>mistakes := []\<rparr> in
      if f = Some 2 then (Inr False, st2)
      else (Inr True, st2))"

subsection \<open>The listings that read \<open>self.cursor\<close>\<close>

text \<open>
  \<open>get_week_mistakes\<close>, \<open>get_month_mistakes\<close> and \<open>get_user_detailed_stats\<close> start by
  reading the attribute \<open>self.cursor\<close>. \<open>__init__\<close> sets \<open>db_path\<close>, \<open>conn\<close> and
  \<open>mistakes_cache\<close> only, and the class has no such attribute, so the lookup raises
  \<open>AttributeError\<close> before any statement reaches the store.
\<close>

type_synonym listing_row = "int \<times> pystr \<times> pystr \<times> int \<times> int"

definition get_week_mistakes :: "fault \<Rightarrow> int \<Rightarrow> int \<Rightarrow> db \<Rightarrow> exn + listing_row list" where
  "get_week_mistakes f year week st = Inl AttributeError"

definition get_month_mistakes :: "fault \<Rightarrow> int \<Rightarrow> int \<Rightarrow> db \<Rightarrow> exn + listing_row list" where
  "get_month_mistakes f year month st = Inl AttributeError"

definition get_user_detailed_stats ::
  "fault \<Rightarrow> pystr \<Rightarrow> db \<Rightarrow> exn + (pystr \<times> int \<times> int \<times> int) list" where
  "get_user_detailed_stats f user_name st = Inl AttributeError"

subsection \<open>Search\<close>

text \<open>
  SQLite's \<open>X LIKE P\<close> without an \<open>ESCAPE\<close> clause. \<open>like_match\<close> is the matcher: \<open>%\<close> (37)
  in the pattern matches any run of characters, \<open>_\<close> (95) matches any one character, and
  every other character matches itself, where the 26 ASCII letters match in either case.
  The function reads pattern and text as C strings: both end at their first NUL character
  (\<open>c_string\<close>), whatever follows it.
\<close>

definition ascii_lower :: "nat \<Rightarrow> nat" where
  "ascii_lower c = (if 65 \<le> c \<and> c \<le> 90 then c + 32 else c)"

fun like_match :: "pystr \<Rightarrow> pystr \<Rightarrow> bool" where
  "like_match [] [] = True"
| "like_match [] (c # cs) = False"
| "like_match (p # ps) [] = (p = 37 \<and> like_match ps [])"
| "like_match (p # ps) (c # cs) =
     (if p = 37 then like_match ps (c # cs) \<or> like_match (p # ps) cs
      else (p = 95 \<or> ascii_lower p = ascii_lower c) \<and> like_match ps cs)"

definition c_string :: "pystr \<Rightarrow> pystr" where
  "c_string s = takeWhile (\<lambda>c. c \<noteq> 0) s"

definition sql_like :: "pystr \<Rightarrow> pystr \<Rightarrow> bool" where
  "sql_like p s = like_match (c_string p) (c_string s)"

text \<open>The pattern \<open>f"%{text}%"\<close>.\<close>

definition percent :: "pystr \<Rightarrow> pystr" where
  "percent t = [37] @ t @ [37]"

text \<open>
  SQLite refuses a \<open>LIKE\<close> pattern of more than 50000 bytes of UTF-8 with an
  \<open>OperationalError\<close> when it evaluates the operator. \<open>pattern_fits\<close> is the limit; the
  search below is the search for filter texts whose pattern fits and for a priority filter
  that fits 64 bits.
\<close>

definition utf8_len :: "nat \<Rightarrow> nat" where
  "utf8_len c = (if c < 128 then 1 else if c < 2048 then 2 else if c < 65536 then 3 else 4)"

definition pattern_fits :: "pystr \<Rightarrow> bool" where
  "pattern_fits p = (sum_list (map utf8_len p) \<le> 50000)"

text \<open>
  Python's \<open>str.isdigit\<close>: at least one character, and every character a digit of the
  Unicode character database. Below 128 these are \<open>0\<close> to \<open>9\<close>; for the other code points
  the table belongs to the Python runtime and is a parameter here (\<open>unicode_digit\<close>).
  \<open>ascii_digits\<close> are the texts of \<open>0\<close> to \<open>9\<close> only.
\<close>

definition digit_char :: "(nat \<Rightarrow> bool) \<Rightarrow> nat \<Rightarrow> bool" where
  "digit_char unicode_digit c = (if c < 128 then 48 \<le> c \<and> c \<le> 57 else unicode_digit c)"

definition isdigit :: "(nat \<Rightarrow> bool) \<Rightarrow> pystr \<Rightarrow> bool" where
  "isdigit unicode_digit s = (s \<noteq> [] \<and> list_all (digit_char unicode_digit) s)"

definition ascii_digits :: "pystr \<Rightarrow> bool" where
  "ascii_digits s = (s \<noteq> [] \<and> list_all (\<lambda>c. 48 \<le> c \<and> c \<le> 57) s)"

text \<open>The number a text of ASCII digits denotes.\<close>

definition dec_value :: "pystr \<Rightarrow> int" where
  "dec_value s = foldl (\<lambda>a c. 10 * a + (int c - 48)) 0 s"

record search_params =
  p_user :: "pystr option"
  p_status :: "pystr option"
  p_priority :: "int option"
  p_text :: "pystr option"

definition no_filters :: search_params where
  "no_filters = \<lparr>p_user = None, p_status = None, p_priority = None, p_text = None\<rparr>"

text \<open>
  The condition \<open>(description LIKE ? OR id = ?)\<close> with the parameters \<open>'%' + text + '%'\<close> and
  \<open>text if text.isdigit() else -1\<close>. When the second parameter is the text, the \<open>INTEGER\<close>
  affinity of \<open>id\<close> makes SQLite compare it as a number if it reads as one: a text of ASCII
  digits is the number it denotes; a text with any other Unicode digit is no number for
  SQLite and equals no id.
\<close>

definition text_condition :: "(nat \<Rightarrow> bool) \<Rightarrow> pystr \<Rightarrow> mistake \<Rightarrow> bool" where
  "text_condition unicode_digit t m =
     (sql_like (percent t) (m_description m) \<or>
      (if isdigit unicode_digit t then ascii_digits t \<and> m_id m = dec_value t
       else m_id m = - 1))"

definition where_clause :: "(nat \<Rightarrow> bool) \<Rightarrow> search_params \<Rightarrow> mistake \<Rightarrow> bool" where
  "where_clause unicode_digit ps m =
     ((case p_user ps of None \<Rightarrow> True | Some u \<Rightarrow> sql_like (percent u) (m_user m)) \<and>
      (case p_status ps of None \<Rightarrow> True
         | Some s \<Rightarrow> m_closed m = (if s = str ''closed'' then 1 else 0)) \<and>
      (case p_priority ps of None \<Rightarrow> True | Some p \<Rightarrow> m_priority m = p) \<and>
      (case p_text ps of None \<Rightarrow> True | Some t \<Rightarrow> text_condition unicode_digit t m))"

text \<open>\<open>ORDER BY date DESC\<close>; SQL leaves the order of rows with equal dates open, the model
  keeps them in table order.\<close>

definition order_by_date_desc :: "mistake list \<Rightarrow> mistake list" where
  "order_by_date_desc rows = sort_key (\<lambda>m. - m_date m) rows"

definition search_mistakes ::
  "(nat \<Rightarrow> bool) \<Rightarrow> fault \<Rightarrow> search_params \<Rightarrow> db \<Rightarrow> exn + mistake list" where
  "search_mistakes unicode_digit f ps st =
     (if f = Some 0 then Inl OperationalError
      else Inr (take 50 (order_by_date_desc
                  (filter (where_clause unicode_digit ps) (mistakes st)))))"

subsection \<open>Aggregation\<close>

text \<open>SQL \<open>COUNT\<close> is a number on every input; SQL \<open>SUM\<close> over no rows is \<open>NULL\<close> (Python
  \<open>None\<close>). \<open>or0\<close> is Python's \<open>x or 0\<close>.\<close>

definition sql_count :: "'a list \<Rightarrow> int" where
  "sql_count rows = int (length rows)"

definition sql_sum :: "int list \<Rightarrow> int option" where
  "sql_sum vs = (if vs = [] then None else Some (sum_list vs))"

definition or0 :: "int option \<Rightarrow> int" where
  "or0 v = (case v of None \<Rightarrow> 0 | Some n \<Rightarrow> n)"

definition case_when :: "bool \<Rightarrow> int" where
  "case_when b = (if b then 1 else 0)"











text \<open>\<open>get_users_stats\<close>: \<open>users u LEFT JOIN mistakes m ON u.name = m.user\<close> gives, for a
  name, its incidents, or one row whose \<open>m\<close> columns are all \<open>NULL\<close> when it has none.
  \<open>CASE WHEN m.closed = 0 THEN 1 ELSE 0 END\<close> is 0 on that row and \<open>COUNT(m.id)\<close> skips it.\<close>

definition left_join :: "pystr \<Rightarrow> mistake list \<Rightarrow> mistake option list" where
  "left_join u ms =
     (let matched = filter (\<lambda>m. u = m_user m) ms
      in if matched = [] then [None] else map Some matched)"

definition closed_is :: "int \<Rightarrow> mistake option \<Rightarrow> int" where
  "closed_is v r = (case r of None \<Rightarrow> 0 | Some m \<Rightarrow> case_when (m_closed m = v))"

type_synonym users_stats_row = "pystr \<times> int option \<times> int option \<times> int"

definition users_stats_row :: "mistake list \<Rightarrow> pystr \<Rightarrow> users_stats_row" where
  "users_stats_row ms u =
     (let joined = left_join u ms in
      (u, sql_sum (map (closed_is 0) joined), sql_sum (map (closed_is 1) joined),
       sql_count (filter (\<lambda>r. r \<noteq> None) joined)))"

definition get_users_stats :: "fault \<Rightarrow> db \<Rightarrow> exn + users_stats_row list" where
  "get_users_stats f st =
     (if f = Some 0 then Inl OperationalError
      else Inr (map (users_stats_row (mistakes st)) (sort (remdups (users st)))))"

text \<open>\<open>get_mistake_stats\<close>: one grouped query over \<open>mistakes\<close>, a loop that stores a dictionary
  entry for every row whose user is truthy (not the empty string), a second query for the
  names, and a loop that adds zeros for the names still missing.\<close>

record user_counts =
  u_total :: int
  u_active :: int
  u_closed :: int

type_synonym mistake_stats_row = "pystr \<times> int \<times> int option \<times> int option"

definition mistake_stats_query :: "mistake list \<Rightarrow> mistake_stats_row list" where
  "mistake_stats_query ms =
     map (\<lambda>u. let g = filter (\<lambda>m. m_user m = u) ms in
            (u, sql_count g, sql_sum (map (\<lambda>m. case_when (m_closed m = 0)) g),
             sql_sum (map (\<lambda>m. case_when (m_closed m = 1)) g)))
         (sort (remdups (map m_user ms)))"

fun store_rows :: "mistake_stats_row list \<Rightarrow> (pystr \<rightharpoonup> user_counts) \<Rightarrow> (pystr \<rightharpoonup> user_counts)" where
  "store_rows [] stats = stats"
| "store_rows ((u, t, a, c) # rows) stats =
     store_rows rows
       (if u \<noteq> [] then stats(u \<mapsto> \<lparr>u_total = or0 (Some t), u_active = or0 a, u_closed = or0 c\<rparr>)
        else stats)"

fun add_missing_users :: "pystr list \<Rightarrow> (pystr \<rightharpoonup> user_counts) \<Rightarrow> (pystr \<rightharpoonup> user_counts)" where
  "add_missing_users [] stats = stats"
| "add_missing_users (user # us) stats =
     add_missing_users us
       (if user \<notin> dom stats then stats(user \<mapsto> \<lparr>u_total = 0, u_active = 0, u_closed = 0\<rparr>)
        else stats)"

definition get_mistake_stats :: "fault \<Rightarrow> db \<Rightarrow> exn + (pystr \<rightharpoonup> user_counts)" where
  "get_mistake_stats f st =
     (if f = Some 0 then Inl OperationalError
      else let stats = store_rows (mistake_stats_query (mistakes st)) Map.empty in
      if f = Some 1 then Inl OperationalError
      else Inr (add_missing_users (users st) stats))"

subsection \<open>Stores that the operations can produce\<close>

inductive reachable :: "db \<Rightarrow> bool" where
  r_init: "reachable db0"
| r_add_user: "reachable st \<Longrightarrow> reachable (snd (add_user f name st))"
| r_delete_user: "reachable st \<Longrightarrow> reachable (snd (delete_user f name st))"
| r_add_mistake: "reachable st \<Longrightarrow> reachable (snd (add_mistake f now u d p st))"
| r_close_mistake: "reachable st \<Longrightarrow> reachable (snd (close_mistake f i st))"
| r_add_comment: "reachable st \<Longrightarrow> reachable (snd (add_comment f now i a t st))"
| r_clear_mistakes: "reachable st \<Longrightarrow> reachable (snd (clear_mistakes f st))"

definition db_inv :: "db \<Rightarrow> bool" where
  "db_inv st =
     (distinct (users st) \<and> distinct (map m_id (mistakes st)) \<and> 0 \<le> mistakes_seq st \<and>
      (\<forall>m \<in> set (mistakes st).
         0 < m_id m \<and> m_id m \<le> mistakes_seq st \<and>
         (m_priority m = 1 \<or> m_priority m = 2) \<and> (m_closed m = 0 \<or> m_closed m = 1)))"

subsection \<open>Substring containment\<close>

text \<open>The specification describes the description filter as "contains the text as a
  substring". \<open>contains_substring t s\<close> is that notion, written from the specification's
  words (Python's \<open>t in s\<close>), to compare \<open>LIKE\<close> with: \<open>t\<close> occurs in \<open>s\<close> at some position.\<close>

fun contains_substring :: "pystr \<Rightarrow> pystr \<Rightarrow> bool" where
  "contains_substring t [] = (t = [])"
| "contains_substring t (c # cs) = (take (length t) (c # cs) = t \<or> contains_substring t cs)"

text \<open>A pattern character that \<open>LIKE\<close> matches against itself only.\<close>

definition plain_char :: "nat \<Rightarrow> bool" where
  "plain_char c =
     (c \<noteq> 37 \<and> c \<noteq> 95 \<and> (\<forall>d. ascii_lower c = ascii_lower d \<longrightarrow> d = c))"

subsection \<open>Example stores\<close>

text \<open>\<open>db_staff\<close>: the staff member "A" and no incident. \<open>db1\<close>: "A" with one open critical
  incident, which gets the id 1.\<close>

definition db_staff :: db where
  "db_staff = snd (add_user None (str ''A'') db0)"

definition db1 :: db where
  "db1 = snd (add_mistake None 100 (str ''A'') (str ''late delivery'') 2 db_staff)"

text \<open>\<open>db2\<close>: a second, normal incident for "A" at a later time, and incident 1 closed.
  \<open>db3\<close>: \<open>db2\<close> with a second staff member "B", who owns nothing.\<close>

definition db2 :: db where
  "db2 = snd (close_mistake None 1 (snd (add_mistake None 200 (str ''A'') (str ''room 7'') 1 db1)))"

definition db3 :: db where
  "db3 = snd (add_user None (str ''B'') db2)"

definition row1 :: mistake where
  "row1 = \<lparr>m_id = 1, m_user = str ''A'', m_description = str ''late delivery'', m_date = 100,
            m_priority = 2, m_closed = 1\<rparr>"

definition row2 :: mistake where
  "row2 = \<lparr>m_id = 2, m_user = str ''A'', m_description = str ''room 7'', m_date = 200,
            m_priority = 1, m_closed = 0\<rparr>"


text \<open>\<open>db51\<close>: 51 incidents of "A"; incident \<open>k\<close> was created at time \<open>k\<close>.\<close>

definition db51 :: db where
  "db51 = \<lparr>users = [str ''A''],
      mistakes = map (\<lambda>k. \<lparr>m_id = int k, m_user = str ''A'', m_description = str ''d'',
                            m_date = int k, m_priority = 1, m_closed = 0\<rparr>) [1..<52],
      comments = [], mistakes_seq = 51, comments_seq = 0\<rparr>"

text \<open>\<open>row_nul\<close>: an incident whose description is a NUL character followed by \<open>7\<close>.
  \<open>arabic_two\<close>: the text of the one character U+0662, ARABIC-INDIC DIGIT TWO;
  \<open>only_arabic_two\<close> is a digit table that has this one digit above 127.\<close>

definition row_nul :: mistake where
  "row_nul = \<lparr>m_id = 3, m_user = str ''A'', m_description = 0 # str ''7'', m_date = 300,
               m_priority = 1, m_closed = 0\<rparr>"

definition arabic_two :: pystr where
  "arabic_two = [1634]"

definition only_arabic_two :: "nat \<Rightarrow> bool" where
  "only_arabic_two c = (c = 1634)"

section \<open>Invariants of the store\<close>

lemma db_inv_db0: "db_inv db0"
  by (simp add: db_inv_def db0_def)

lemma db_inv_add_user: "db_inv st \<Longrightarrow> db_inv (snd (add_user f name st))"
  by (simp add: db_inv_def add_user_def Let_def)

lemma db_inv_delete_user: "db_inv st \<Longrightarrow> db_inv (snd (delete_user f name st))"
  by (simp add: db_inv_def delete_user_def Let_def)

lemma db_inv_add_mistake: "db_inv st \<Longrightarrow> db_inv (snd (add_mistake f now u d p st))"
  by (fastforce simp: db_inv_def add_mistake_def Let_def)

lemma m_id_close: "m_id \<circ> (\<lambda>m. if m_id m = i then m\<lparr>m_closed := 1\<rparr> else m) = m_id"
  by (rule ext) simp

lemma db_inv_close_mistake: "db_inv st \<Longrightarrow> db_inv (snd (close_mistake f i st))"
  by (auto simp: db_inv_def close_mistake_def Let_def m_id_close)

lemma db_inv_add_comment: "db_inv st \<Longrightarrow> db_inv (snd (add_comment f now i a t st))"
  by (simp add: db_inv_def add_comment_def Let_def)

lemma db_inv_clear_mistakes: "db_inv st \<Longrightarrow> db_inv (snd (clear_mistakes f st))"
  by (simp add: db_inv_def clear_mistakes_def Let_def)

lemma reachable_db_inv: "reachable st \<Longrightarrow> db_inv st"
  by (induction rule: reachable.induct)
     (simp_all add: db_inv_db0 db_inv_add_user db_inv_delete_user db_inv_add_mistake
        db_inv_close_mistake db_inv_add_comment db_inv_clear_mistakes)

lemma example_stores:
  "db_staff = \<lparr>users = [(str ''A'')], mistakes = [], comments = [], mistakes_seq = 0, comments_seq = 0\<rparr>"
  "db1 = \<lparr>users = [(str ''A'')],
      mistakes = [\<lparr>m_id = 1, m_user = (str ''A''), m_description = (str ''late delivery''), m_date = 100,
                   m_priority = 2, m_closed = 0\<rparr>],
      comments = [], mistakes_seq = 1, comments_seq = 0\<rparr>"
  by (simp_all add: db1_def db_staff_def add_mistake_def add_user_def db0_def Let_def)

lemma reachable_examples: "reachable db_staff" "reachable db1"
  unfolding db1_def db_staff_def by (intro reachable.intros)+

lemma db2_eq:
  "db2 = \<lparr>users = [(str ''A'')], mistakes = [row1, row2], comments = [],
          mistakes_seq = 2, comments_seq = 0\<rparr>"
  by (simp add: db2_def row1_def row2_def example_stores add_mistake_def close_mistake_def fits_int64_def Let_def)

lemma db3_eq:
  "db3 = \<lparr>users = [(str ''A''), (str ''B'')], mistakes = [row1, row2], comments = [],
          mistakes_seq = 2, comments_seq = 0\<rparr>"
  by (simp add: db3_def db2_eq add_user_def Let_def)

lemma reachable_db2: "reachable db2"
  unfolding db2_def by (intro reachable.intros reachable_examples)


section \<open>Creating incidents\<close>

text \<open>
  C7. \<open>add_mistake\<close> stores priority 1 for every priority argument other than 1 and 2, and
  stores the argument 2 unchanged. The call appends exactly one row and returns its id; that
  row, and so every row of a store built by the operations, has priority 1 or 2.
\<close>

theorem add_mistake_normalizes_priority:
  "(let st' = snd (add_mistake None now u d p st); row = last (mistakes st')
    in fst (add_mistake None now u d p st) = Inr (Some (m_id row)) \<and>
       mistakes st' = mistakes st @ [row] \<and>
       (p \<noteq> 1 \<and> p \<noteq> 2 \<longrightarrow> m_priority row = 1) \<and>
       (p = 2 \<longrightarrow> m_priority row = 2) \<and>
       (m_priority row = 1 \<or> m_priority row = 2)) \<and>
   (\<forall>m \<in> set (mistakes (snd (add_mistake f now u d p st))).
       m \<in> set (mistakes st) \<or> m_priority m = 1 \<or> m_priority m = 2) \<and>
   (reachable st \<longrightarrow> (\<forall>m \<in> set (mistakes st). m_priority m = 1 \<or> m_priority m = 2))"
proof -
  have inv: "reachable st \<longrightarrow> (\<forall>m \<in> set (mistakes st). m_priority m = 1 \<or> m_priority m = 2)"
    using reachable_db_inv [of st] by (simp add: db_inv_def)
  have new: "\<forall>m \<in> set (mistakes (snd (add_mistake f now u d p st))).
       m \<in> set (mistakes st) \<or> m_priority m = 1 \<or> m_priority m = 2"
    by (auto simp: add_mistake_def Let_def)
  show ?thesis
    using inv new by (simp add: add_mistake_def Let_def)
qed


theorem add_mistake_normalizes_priority_witness:
  "m_priority (last (mistakes (snd (add_mistake None 10 (str ''A'') (str ''late'') 3 db0)))) = 1 \<and>
   m_priority (last (mistakes (snd (add_mistake None 10 (str ''A'') (str ''late'') 2 db0)))) = 2 \<and>
   fst (add_mistake None 10 (str ''A'') (str ''late'') 2 db0) = Inr (Some 1) \<and>
   reachable db1 \<and> map m_priority (mistakes db1) = [2]"
  using add_mistake_normalizes_priority [of 10 "(str ''A'')" "(str ''late'')" 3 db0 None]
        add_mistake_normalizes_priority [of 10 "(str ''A'')" "(str ''late'')" 2 db0 None]
        add_mistake_normalizes_priority [of 10 "(str ''A'')" "(str ''late'')" 2 db1 None]
        reachable_examples(2)
  by (simp add: Let_def add_mistake_def db0_def example_stores)

section \<open>Closing incidents\<close>

lemma close_map_id:
  "\<forall>m \<in> set ms. m_id m \<noteq> i \<or> m_closed m = 1 \<Longrightarrow>
   map (\<lambda>m. if m_id m = i then m\<lparr>m_closed := 1\<rparr> else m) ms = ms"
  by (induction ms) auto

lemma close_closed:
  assumes "m \<in> set (map (\<lambda>m. if m_id m = i then m\<lparr>m_closed := 1\<rparr> else m) ms)"
    and "m_id m = i"
  shows "m_closed m = 1"
proof -
  from assms(1) obtain x where x: "m = (if m_id x = i then x\<lparr>m_closed := 1\<rparr> else x)"
    by (auto simp only: set_map image_iff)
  show ?thesis
  proof (cases "m_id x = i")
    case True
    with x have "m = x\<lparr>m_closed := 1\<rparr>" by simp
    then show ?thesis by simp
  next
    case False
    with x have "m = x" by simp
    with False assms(2) show ?thesis by simp
  qed
qed

lemma close_mistake_None:
  "fits_int64 i \<Longrightarrow> close_mistake None i st =
     (Inr True, st\<lparr>mistakes := map (\<lambda>m. if m_id m = i then m\<lparr>m_closed := 1\<rparr> else m) (mistakes st)\<rparr>)"
  by (simp add: close_mistake_def)

lemma fits_int64_small: "fits_int64 1" "fits_int64 7" "fits_int64 42"
  by (simp_all add: fits_int64_def)

text \<open>An id that SQLite's \<open>INTEGER\<close> cannot hold never reaches the store: the binding raises
  \<open>OverflowError\<close> in \<open>mistake_exists\<close>, \<open>close_mistake\<close> and \<open>add_comment\<close>, for every
  fault, and the store is as before.\<close>

lemma id_out_of_range_raises:
  assumes "\<not> fits_int64 i"
  shows "mistake_exists f i st = Inl OverflowError"
    and "close_mistake f i st = (Inl OverflowError, st)"
    and "add_comment f now i a t st = (Inl OverflowError, st)"
    and "add_comment f now j i t st = (Inl OverflowError, st)"
  using assms by (simp_all add: mistake_exists_def close_mistake_def add_comment_def)

text \<open>
  C2, as the claim states it, fails: on a store without incident 7, \<open>close_mistake 7\<close> answers
  \<open>True\<close>; the \<open>UPDATE\<close> matches no row and that is not an error. \<open>mistake_exists\<close> is the
  operation that answers \<open>False\<close>.
\<close>

theorem close_mistake_nonexistent_counterexample:
  "close_mistake None 7 db0 = (Inr True, db0) \<and> mistake_exists None 7 db0 = Inr False"
  by (simp add: close_mistake_def mistake_exists_def db0_def fits_int64_def)

text \<open>
  C2, amended. Let the id be one that SQLite can hold (a signed 64-bit integer) and let the
  store answer. Then \<open>close_mistake\<close> returns \<open>True\<close>, whether an incident has the id or not,
  and the store after the call is the store before it with \<open>closed = 1\<close> in the incidents
  of that id and nothing else changed. For an id that no incident has, the store is
  unchanged and \<open>mistake_exists\<close> is the call that reports \<open>False\<close>; for an id that an
  incident has, \<open>mistake_exists\<close> reports \<open>True\<close>. After the call every incident with the id
  has \<open>closed = 1\<close>, every other incident is as it was, and a second call returns \<open>True\<close>
  and changes nothing.
\<close>

theorem close_mistake_flag_flip:
  "fits_int64 i \<longrightarrow>
   fst (close_mistake None i st) = Inr True \<and>
   snd (close_mistake None i st) =
     st\<lparr>mistakes := map (\<lambda>m. if m_id m = i then m\<lparr>m_closed := 1\<rparr> else m) (mistakes st)\<rparr> \<and>
   (i \<notin> m_id ` set (mistakes st) \<longrightarrow>
      snd (close_mistake None i st) = st \<and> mistake_exists None i st = Inr False) \<and>
   (i \<in> m_id ` set (mistakes st) \<longrightarrow> mistake_exists None i st = Inr True) \<and>
   (\<forall>m \<in> set (mistakes (snd (close_mistake None i st))). m_id m = i \<longrightarrow> m_closed m = 1) \<and>
   length (mistakes (snd (close_mistake None i st))) = length (mistakes st) \<and>
   (\<forall>k < length (mistakes st). m_id (mistakes st ! k) \<noteq> i \<longrightarrow>
      mistakes (snd (close_mistake None i st)) ! k = mistakes st ! k) \<and>
   (\<forall>k < length (mistakes st). m_id (mistakes st ! k) = i \<longrightarrow>
      mistakes (snd (close_mistake None i st)) ! k = (mistakes st ! k)\<lparr>m_closed := 1\<rparr>) \<and>
   close_mistake None i (snd (close_mistake None i st)) = (Inr True, snd (close_mistake None i st))"
proof
  assume fit: "fits_int64 i"
  let ?cl = "\<lambda>m. if m_id m = i then m\<lparr>m_closed := 1\<rparr> else m"
  let ?st' = "snd (close_mistake None i st)"
  note cm = close_mistake_None [OF fit]
  have r: "fst (close_mistake None i st) = Inr True"
    by (simp add: cm)
  have s: "?st' = st\<lparr>mistakes := map ?cl (mistakes st)\<rparr>"
    by (simp add: cm)
  have ms: "mistakes ?st' = map ?cl (mistakes st)"
    by (simp add: cm)
  have a: "i \<notin> m_id ` set (mistakes st) \<longrightarrow> ?st' = st \<and> mistake_exists None i st = Inr False"
  proof
    assume h: "i \<notin> m_id ` set (mistakes st)"
    then have "\<forall>m \<in> set (mistakes st). m_id m \<noteq> i \<or> m_closed m = 1"
      by blast
    then have "map ?cl (mistakes st) = mistakes st"
      by (rule close_map_id)
    then have 1: "?st' = st"
      by (simp add: cm)
    have "filter (\<lambda>m. m_id m = i) (mistakes st) = []"
      using h by (auto simp: filter_empty_conv)
    then have 2: "mistake_exists None i st = Inr False"
      using fit by (simp add: mistake_exists_def)
    from 1 2 show "?st' = st \<and> mistake_exists None i st = Inr False"
      by (rule conjI)
  qed
  have b: "i \<in> m_id ` set (mistakes st) \<longrightarrow> mistake_exists None i st = Inr True"
  proof
    assume "i \<in> m_id ` set (mistakes st)"
    then have "filter (\<lambda>m. m_id m = i) (mistakes st) \<noteq> []"
      by (auto simp: filter_empty_conv)
    then show "mistake_exists None i st = Inr True"
      using fit by (simp add: mistake_exists_def)
  qed
  have cc: "\<forall>m \<in> set (map ?cl (mistakes st)). m_id m = i \<longrightarrow> m_closed m = 1"
    using close_closed [of _ i "mistakes st"] by blast
  then have c: "\<forall>m \<in> set (mistakes ?st'). m_id m = i \<longrightarrow> m_closed m = 1"
    by (simp only: ms)
  have d: "length (mistakes ?st') = length (mistakes st)"
    by (simp add: ms)
  have e1: "\<forall>k < length (mistakes st). m_id (mistakes st ! k) \<noteq> i \<longrightarrow>
      mistakes ?st' ! k = mistakes st ! k"
    by (simp add: ms)
  have e2: "\<forall>k < length (mistakes st). m_id (mistakes st ! k) = i \<longrightarrow>
      mistakes ?st' ! k = (mistakes st ! k)\<lparr>m_closed := 1\<rparr>"
    by (simp add: ms)
  from cc have "\<forall>m \<in> set (map ?cl (mistakes st)). m_id m \<noteq> i \<or> m_closed m = 1"
    by blast
  then have "map ?cl (map ?cl (mistakes st)) = map ?cl (mistakes st)"
    by (rule close_map_id)
  then have g: "close_mistake None i ?st' = (Inr True, ?st')"
    by (simp add: cm)
  from r s a b c d e1 e2 g
  show "fst (close_mistake None i st) = Inr True \<and>
   snd (close_mistake None i st) =
     st\<lparr>mistakes := map (\<lambda>m. if m_id m = i then m\<lparr>m_closed := 1\<rparr> else m) (mistakes st)\<rparr> \<and>
   (i \<notin> m_id ` set (mistakes st) \<longrightarrow>
      snd (close_mistake None i st) = st \<and> mistake_exists None i st = Inr False) \<and>
   (i \<in> m_id ` set (mistakes st) \<longrightarrow> mistake_exists None i st = Inr True) \<and>
   (\<forall>m \<in> set (mistakes (snd (close_mistake None i st))). m_id m = i \<longrightarrow> m_closed m = 1) \<and>
   length (mistakes (snd (close_mistake None i st))) = length (mistakes st) \<and>
   (\<forall>k < length (mistakes st). m_id (mistakes st ! k) \<noteq> i \<longrightarrow>
      mistakes (snd (close_mistake None i st)) ! k = mistakes st ! k) \<and>
   (\<forall>k < length (mistakes st). m_id (mistakes st ! k) = i \<longrightarrow>
      mistakes (snd (close_mistake None i st)) ! k = (mistakes st ! k)\<lparr>m_closed := 1\<rparr>) \<and>
   close_mistake None i (snd (close_mistake None i st)) = (Inr True, snd (close_mistake None i st))"
    by blast
qed

theorem close_mistake_flag_flip_witness:
  "fits_int64 7 \<and> fits_int64 1 \<and>
   7 \<notin> m_id ` set (mistakes db1) \<and> snd (close_mistake None 7 db1) = db1 \<and>
   mistake_exists None 7 db1 = Inr False \<and>
   1 \<in> m_id ` set (mistakes db1) \<and> mistake_exists None 1 db1 = Inr True \<and>
   fst (close_mistake None 1 db1) = Inr True \<and>
   mistakes (snd (close_mistake None 1 db1)) =
     [\<lparr>m_id = 1, m_user = str ''A'', m_description = str ''late delivery'', m_date = 100,
       m_priority = 2, m_closed = 1\<rparr>] \<and>
   mistakes (snd (close_mistake None 2 db2)) = [row1, row2\<lparr>m_closed := 1\<rparr>] \<and>
   close_mistake None 1 (snd (close_mistake None 1 db1)) = (Inr True, snd (close_mistake None 1 db1))"
proof -
  note f = fits_int64_small
  have n: "7 \<notin> m_id ` set (mistakes db1)" "1 \<in> m_id ` set (mistakes db1)"
    by (simp_all add: example_stores)
  have "fits_int64 2" by (simp add: fits_int64_def)
  with close_mistake_flag_flip [of 2 db2]
  have "snd (close_mistake None 2 db2) =
     db2\<lparr>mistakes := map (\<lambda>m. if m_id m = 2 then m\<lparr>m_closed := 1\<rparr> else m) (mistakes db2)\<rparr>"
    by blast
  then have 2: "mistakes (snd (close_mistake None 2 db2)) = [row1, row2\<lparr>m_closed := 1\<rparr>]"
    by (simp add: db2_eq) (simp add: row1_def row2_def)
  from close_mistake_flag_flip [of 7 db1] f(2) n(1)
  have 7: "snd (close_mistake None 7 db1) = db1" "mistake_exists None 7 db1 = Inr False"
    by blast+
  from close_mistake_flag_flip [of 1 db1] f(1) n(2)
  have 1: "mistake_exists None 1 db1 = Inr True" "fst (close_mistake None 1 db1) = Inr True"
    "close_mistake None 1 (snd (close_mistake None 1 db1)) = (Inr True, snd (close_mistake None 1 db1))"
    by blast+
  have m: "mistakes (snd (close_mistake None 1 db1)) =
     [\<lparr>m_id = 1, m_user = str ''A'', m_description = str ''late delivery'', m_date = 100,
       m_priority = 2, m_closed = 1\<rparr>]"
    by (simp add: close_mistake_None f example_stores)
  from f n 7 1 2 m show ?thesis by blast
qed

section \<open>Deleting staff members\<close>

lemma delete_user_blocked:
  "\<exists>m \<in> set (mistakes st). m_user m = name \<and> m_closed m = 0 \<Longrightarrow>
   delete_user f name st = (Inr False, st)"
proof -
  assume "\<exists>m \<in> set (mistakes st). m_user m = name \<and> m_closed m = 0"
  then have "filter (\<lambda>m. m_user m = name \<and> m_closed m = 0) (mistakes st) \<noteq> []"
    by (simp add: filter_empty_conv)
  then show ?thesis
    by (simp add: delete_user_def Let_def)
qed

lemma delete_user_unknown:
  assumes "name \<notin> set (users st)"
  shows "fst (delete_user f name st) = Inr False"
    and "users (snd (delete_user f name st)) = users st"
proof -
  have a: "filter (\<lambda>u. u \<noteq> name) (users st) = users st"
    using assms by (auto simp: filter_id_conv)
  have b: "filter (\<lambda>u. u = name) (users st) = []"
    using assms by (auto simp: filter_empty_conv)
  show "fst (delete_user f name st) = Inr False"
    by (simp add: delete_user_def Let_def b)
  show "users (snd (delete_user f name st)) = users st"
    by (simp add: delete_user_def Let_def a)
qed

lemma delete_user_free:
  assumes "name \<in> set (users st)"
    and "\<not> (\<exists>m \<in> set (mistakes st). m_user m = name \<and> m_closed m = 0)"
  shows "delete_user None name st = (Inr True, st\<lparr>users := filter (\<lambda>u. u \<noteq> name) (users st)\<rparr>)"
proof -
  have a: "filter (\<lambda>m. m_user m = name \<and> m_closed m = 0) (mistakes st) = []"
    using assms(2) by (simp add: filter_empty_conv)
  have b: "filter (\<lambda>u. u = name) (users st) \<noteq> []"
    using assms(1) by (simp add: filter_empty_conv)
  show ?thesis
    by (simp add: delete_user_def Let_def a b)
qed


text \<open>
  C6. \<open>delete_user\<close> returns \<open>False\<close> and leaves the store as it is when the name owns an
  incident with \<open>closed = 0\<close>; it returns \<open>False\<close> and keeps the staff table when the name is
  not in it. Otherwise, on a store that answers, it returns \<open>True\<close> and the name is gone; a
  member without incidents is such a case.
\<close>

theorem delete_user_outcomes:
  "((\<exists>m \<in> set (mistakes st). m_user m = name \<and> m_closed m = 0) \<longrightarrow>
       delete_user f name st = (Inr False, st)) \<and>
   (name \<notin> set (users st) \<longrightarrow>
       fst (delete_user f name st) = Inr False \<and> users (snd (delete_user f name st)) = users st) \<and>
   (name \<in> set (users st) \<and> \<not> (\<exists>m \<in> set (mistakes st). m_user m = name \<and> m_closed m = 0) \<longrightarrow>
       delete_user None name st = (Inr True, st\<lparr>users := filter (\<lambda>u. u \<noteq> name) (users st)\<rparr>) \<and>
       name \<notin> set (users (snd (delete_user None name st)))) \<and>
   (name \<in> set (users st) \<and> (\<forall>m \<in> set (mistakes st). m_user m \<noteq> name) \<longrightarrow>
       fst (delete_user None name st) = Inr True)"
proof (intro conjI impI)
  assume "\<exists>m \<in> set (mistakes st). m_user m = name \<and> m_closed m = 0"
  then show "delete_user f name st = (Inr False, st)"
    by (rule delete_user_blocked)
next
  assume "name \<notin> set (users st)"
  then show "fst (delete_user f name st) = Inr False"
    by (rule delete_user_unknown)
next
  assume "name \<notin> set (users st)"
  then show "users (snd (delete_user f name st)) = users st"
    by (rule delete_user_unknown)
next
  assume h: "name \<in> set (users st) \<and>
     \<not> (\<exists>m \<in> set (mistakes st). m_user m = name \<and> m_closed m = 0)"
  then show "delete_user None name st =
      (Inr True, st\<lparr>users := filter (\<lambda>u. u \<noteq> name) (users st)\<rparr>)"
    by (simp add: delete_user_free)
  then show "name \<notin> set (users (snd (delete_user None name st)))"
    by simp
next
  assume h: "name \<in> set (users st) \<and> (\<forall>m \<in> set (mistakes st). m_user m \<noteq> name)"
  then have "\<not> (\<exists>m \<in> set (mistakes st). m_user m = name \<and> m_closed m = 0)"
    by blast
  with h show "fst (delete_user None name st) = Inr True"
    by (simp add: delete_user_free)
qed

theorem delete_user_outcomes_witness:
  "(\<exists>m \<in> set (mistakes db1). m_user m = (str ''A'') \<and> m_closed m = 0) \<and>
   delete_user None (str ''A'') db1 = (Inr False, db1) \<and> (str ''A'') \<in> set (users db1) \<and>
   (str ''B'') \<notin> set (users db1) \<and> fst (delete_user None (str ''B'') db1) = Inr False \<and>
   (str ''A'') \<in> set (users db_staff) \<and> mistakes db_staff = [] \<and>
   fst (delete_user None (str ''A'') db_staff) = Inr True \<and>
   users (snd (delete_user None (str ''A'') db_staff)) = []"
  using delete_user_outcomes [of db1 "(str ''A'')" None] delete_user_outcomes [of db1 "(str ''B'')" None]
        delete_user_outcomes [of db_staff "(str ''A'')" None]
  by (simp add: example_stores)

section \<open>Clearing the statistics\<close>

text \<open>
  C9. \<open>clear_mistakes\<close> never changes the staff table. On a store that answers it returns
  \<open>True\<close> and leaves no incident and no comment, also when there was none before. It returns
  \<open>False\<close> only when one of its three statements failed.
\<close>

theorem clear_mistakes_outcomes:
  "users (snd (clear_mistakes f st)) = users st \<and>
   clear_mistakes None st = (Inr True, st\<lparr>comments := [], mistakes := []\<rparr>) \<and>
   mistakes (snd (clear_mistakes None st)) = [] \<and>
   comments (snd (clear_mistakes None st)) = [] \<and>
   (fst (clear_mistakes f st) = Inr True \<or> fst (clear_mistakes f st) = Inr False) \<and>
   (fst (clear_mistakes f st) = Inr False \<longrightarrow> store_fails f 3)"
  by (auto simp: clear_mistakes_def store_fails_def Let_def)

theorem clear_mistakes_outcomes_witness:
  "clear_mistakes None db0 = (Inr True, db0) \<and>
   fst (clear_mistakes (Some 1) db1) = Inr False \<and> store_fails (Some 1) 3 \<and>
   users (snd (clear_mistakes None db1)) = [(str ''A'')] \<and> mistakes (snd (clear_mistakes None db1)) = []"
  using clear_mistakes_outcomes [of None db0] clear_mistakes_outcomes [of "Some 1" db1]
        clear_mistakes_outcomes [of None db1]
  by (simp add: example_stores db0_def store_fails_def clear_mistakes_def)

section \<open>Search: order and cap\<close>

lemma order_by_date_desc_sorted: "sorted_wrt (\<lambda>a b. m_date b \<le> m_date a) (order_by_date_desc rows)"
proof -
  have "sorted (map (\<lambda>m. - m_date m) (order_by_date_desc rows))"
    unfolding order_by_date_desc_def by (rule sorted_sort_key)
  then show ?thesis
    by (simp add: sorted_map)
qed

lemma order_by_date_desc_set: "set (order_by_date_desc rows) = set rows"
  by (simp add: order_by_date_desc_def)

lemma order_by_date_desc_length: "length (order_by_date_desc rows) = length rows"
  by (simp add: order_by_date_desc_def)

lemma where_clause_no_filters: "where_clause U no_filters = (\<lambda>m. True)"
  by (rule ext) (simp add: where_clause_def no_filters_def)

lemma cut_off_rows_older:
  assumes "sorted_wrt (\<lambda>a b. m_date b \<le> m_date a) xs"
    and "r \<in> set (take n xs)" and "m \<in> set xs" and "m \<notin> set (take n xs)"
  shows "m_date m \<le> m_date r"
proof -
  have "xs = take n xs @ drop n xs" by simp
  with assms(3,4) have m: "m \<in> set (drop n xs)"
    by (metis Un_iff set_append)
  have "sorted_wrt (\<lambda>a b. m_date b \<le> m_date a) (take n xs @ drop n xs)"
    using assms(1) by simp
  then have "\<forall>a \<in> set (take n xs). \<forall>b \<in> set (drop n xs). m_date b \<le> m_date a"
    unfolding sorted_wrt_append by blast
  with assms(2) m show ?thesis by blast
qed

lemma search_examples:
  "search_mistakes U None no_filters db2 = Inr [row2, row1]"
  "search_mistakes U None (no_filters\<lparr>p_status := Some (str ''opne'')\<rparr>) db2 = Inr [row2]"
  "search_mistakes U None (no_filters\<lparr>p_status := Some (str ''open'')\<rparr>) db2 = Inr [row2]"
  "search_mistakes U None (no_filters\<lparr>p_status := Some (str ''closed'')\<rparr>) db2 = Inr [row1]"
  by (simp_all add: search_mistakes_def where_clause_def no_filters_def db2_eq row1_def row2_def
      order_by_date_desc_def)

lemma search_db51:
  "length (mistakes db51) = 51"
  "map m_id (projr (search_mistakes only_arabic_two None no_filters db51)) = map int (rev [2..<52])"
  "hd (mistakes db51) \<in> set (mistakes db51)"
  "hd (mistakes db51) \<notin> set (projr (search_mistakes only_arabic_two None no_filters db51))"
  "last (projr (search_mistakes only_arabic_two None no_filters db51)) \<in>
     set (projr (search_mistakes only_arabic_two None no_filters db51))"
  by code_simp+

text \<open>
  C4. On a store that answers, \<open>search_mistakes\<close> without filters returns the first 50 rows of
  the whole table in newest-first order. For every filter combination it returns a list: as
  many rows as match, but at most 50; ordered by date, newest first; all of them matching
  rows, and all the matching rows when there are at most 50; and a matching row that was cut
  off is no newer than any returned row.
\<close>

theorem search_mistakes_newest_first_capped:
  "search_mistakes U None no_filters st = Inr (take 50 (order_by_date_desc (mistakes st))) \<and>
   (\<exists>rows. search_mistakes U None ps st = Inr rows \<and>
      length rows = min 50 (length (filter (where_clause U ps) (mistakes st))) \<and>
      sorted_wrt (\<lambda>a b. m_date b \<le> m_date a) rows \<and>
      set rows \<subseteq> {m \<in> set (mistakes st). where_clause U ps m} \<and>
      (length (filter (where_clause U ps) (mistakes st)) \<le> 50 \<longrightarrow>
         set rows = {m \<in> set (mistakes st). where_clause U ps m}) \<and>
      (\<forall>m \<in> set (mistakes st). where_clause U ps m \<and> m \<notin> set rows \<longrightarrow>
         (\<forall>r \<in> set rows. m_date m \<le> m_date r)))"
proof -
  let ?all = "order_by_date_desc (filter (where_clause U ps) (mistakes st))"
  let ?rows = "take 50 ?all"
  have s: "sorted_wrt (\<lambda>a b. m_date b \<le> m_date a) ?all"
    by (rule order_by_date_desc_sorted)
  have 0: "search_mistakes U None no_filters st = Inr (take 50 (order_by_date_desc (mistakes st)))"
    by (simp add: search_mistakes_def where_clause_no_filters)
  have 1: "search_mistakes U None ps st = Inr ?rows"
    by (simp add: search_mistakes_def)
  have 2: "length ?rows = min 50 (length (filter (where_clause U ps) (mistakes st)))"
    by (simp add: order_by_date_desc_length min.commute)
  have 3: "sorted_wrt (\<lambda>a b. m_date b \<le> m_date a) ?rows"
    using s by (rule sorted_wrt_take)
  have "set ?rows \<subseteq> set ?all"
    by (rule set_take_subset)
  then have 4: "set ?rows \<subseteq> {m \<in> set (mistakes st). where_clause U ps m}"
    by (auto simp: order_by_date_desc_set)
  have 5: "length (filter (where_clause U ps) (mistakes st)) \<le> 50 \<longrightarrow>
         set ?rows = {m \<in> set (mistakes st). where_clause U ps m}"
    by (auto simp: order_by_date_desc_set order_by_date_desc_length)
  have 6: "\<forall>m \<in> set (mistakes st). where_clause U ps m \<and> m \<notin> set ?rows \<longrightarrow>
         (\<forall>r \<in> set ?rows. m_date m \<le> m_date r)"
  proof (intro ballI impI)
    fix m r
    assume "m \<in> set (mistakes st)" and h: "where_clause U ps m \<and> m \<notin> set ?rows"
      and r: "r \<in> set ?rows"
    then have "m \<in> set ?all" by (simp add: order_by_date_desc_set)
    with s r h show "m_date m \<le> m_date r"
      by (blast intro: cut_off_rows_older)
  qed
  from 0 1 2 3 4 5 6 show ?thesis by blast
qed

theorem search_mistakes_newest_first_capped_witness:
  "length (filter (where_clause only_arabic_two no_filters) (mistakes db2)) \<le> 50 \<and>
   search_mistakes only_arabic_two None no_filters db2 = Inr [row2, row1] \<and>
   sorted_wrt (\<lambda>a b. m_date b \<le> m_date a) [row2, row1] \<and>
   set [row2, row1] = {m \<in> set (mistakes db2). where_clause only_arabic_two no_filters m} \<and>
   length (mistakes db51) = 51 \<and>
   length (projr (search_mistakes only_arabic_two None no_filters db51)) = 50 \<and>
   hd (mistakes db51) \<in> set (mistakes db51) \<and> where_clause only_arabic_two no_filters (hd (mistakes db51)) \<and>
   hd (mistakes db51) \<notin> set (projr (search_mistakes only_arabic_two None no_filters db51)) \<and>
   m_date (hd (mistakes db51)) \<le> m_date (last (projr (search_mistakes only_arabic_two None no_filters db51)))"
proof -
  have n: "length (filter (where_clause only_arabic_two no_filters) (mistakes db2)) \<le> 50"
    by (simp add: db2_eq)
  obtain rows where r: "search_mistakes only_arabic_two None no_filters db2 = Inr rows"
      "sorted_wrt (\<lambda>a b. m_date b \<le> m_date a) rows"
      "length (filter (where_clause only_arabic_two no_filters) (mistakes db2)) \<le> 50 \<longrightarrow>
         set rows = {m \<in> set (mistakes db2). where_clause only_arabic_two no_filters m}"
    using search_mistakes_newest_first_capped [where U = only_arabic_two and st = db2 and ps = no_filters] by blast
  from r(1) have rows: "rows = [row2, row1]"
    by (simp add: search_examples)
  obtain big where b: "search_mistakes only_arabic_two None no_filters db51 = Inr big"
      "length big = min 50 (length (filter (where_clause only_arabic_two no_filters) (mistakes db51)))"
      "\<forall>m \<in> set (mistakes db51). where_clause only_arabic_two no_filters m \<and> m \<notin> set big \<longrightarrow>
         (\<forall>r \<in> set big. m_date m \<le> m_date r)"
    using search_mistakes_newest_first_capped [where U = only_arabic_two and st = db51 and ps = no_filters] by blast
  from b(1) have big: "projr (search_mistakes only_arabic_two None no_filters db51) = big"
    by simp
  have "length (filter (where_clause only_arabic_two no_filters) (mistakes db51)) = 51"
    by (simp add: where_clause_no_filters search_db51)
  with b(2) have l: "length (projr (search_mistakes only_arabic_two None no_filters db51)) = 50"
    by (simp add: big)
  have w: "where_clause only_arabic_two no_filters (hd (mistakes db51))"
    by (simp add: where_clause_no_filters)
  from b(3) w search_db51(3,4,5)
  have o: "m_date (hd (mistakes db51)) \<le> m_date (last (projr (search_mistakes only_arabic_two None no_filters db51)))"
    unfolding big by blast
  from n r(2,3) rows have 1: "sorted_wrt (\<lambda>a b. m_date b \<le> m_date a) [row2, row1]"
    "set [row2, row1] = {m \<in> set (mistakes db2). where_clause only_arabic_two no_filters m}"
    by blast+
  from n 1 l w o search_db51 search_examples(1) show ?thesis
    by blast
qed

section \<open>Search: the status filter\<close>

lemma where_clause_status:
  "s \<noteq> (str ''closed'') \<Longrightarrow>
   where_clause U (ps\<lparr>p_status := Some s\<rparr>) = (\<lambda>m. where_clause U (ps\<lparr>p_status := None\<rparr>) m \<and> m_closed m = 0)"
  by (rule ext) (auto simp: where_clause_def)

text \<open>
  C10. A status filter whose value is any string other than \<open>closed\<close> selects exactly what the
  value \<open>open\<close> selects, for every store fault and whatever the other filters are: the rows
  with \<open>closed = 0\<close> that satisfy the other filters. On a store that answers, the call returns
  a list (the value is not rejected), and every returned row has \<open>closed = 0\<close> (the filter is
  not ignored).
\<close>

theorem search_status_not_closed_means_open:
  "s \<noteq> (str ''closed'') \<longrightarrow>
     search_mistakes U f (ps\<lparr>p_status := Some s\<rparr>) st =
       search_mistakes U f (ps\<lparr>p_status := Some (str ''open'')\<rparr>) st \<and>
     search_mistakes U None (ps\<lparr>p_status := Some s\<rparr>) st =
       Inr (take 50 (order_by_date_desc
         (filter (\<lambda>m. where_clause U (ps\<lparr>p_status := None\<rparr>) m \<and> m_closed m = 0) (mistakes st)))) \<and>
     search_mistakes U None (no_filters\<lparr>p_status := Some s\<rparr>) st =
       Inr (take 50 (order_by_date_desc (filter (\<lambda>m. m_closed m = 0) (mistakes st)))) \<and>
     (\<forall>rows. search_mistakes U f (ps\<lparr>p_status := Some s\<rparr>) st = Inr rows \<longrightarrow>
        (\<forall>m \<in> set rows. m_closed m = 0))"
proof
  assume s: "s \<noteq> (str ''closed'')"
  have o: "(str ''open'') \<noteq> (str ''closed'')" by simp
  have 1: "search_mistakes U f (ps\<lparr>p_status := Some s\<rparr>) st =
       search_mistakes U f (ps\<lparr>p_status := Some (str ''open'')\<rparr>) st"
    by (simp only: search_mistakes_def where_clause_status [OF s] where_clause_status [OF o])
  have 2: "search_mistakes U None (ps\<lparr>p_status := Some s\<rparr>) st =
       Inr (take 50 (order_by_date_desc
         (filter (\<lambda>m. where_clause U (ps\<lparr>p_status := None\<rparr>) m \<and> m_closed m = 0) (mistakes st))))"
    by (simp add: search_mistakes_def where_clause_status [OF s])
  have "where_clause U (no_filters\<lparr>p_status := None\<rparr>) = (\<lambda>m. True)"
    by (rule ext) (simp add: where_clause_def no_filters_def)
  then have 3: "search_mistakes U None (no_filters\<lparr>p_status := Some s\<rparr>) st =
       Inr (take 50 (order_by_date_desc (filter (\<lambda>m. m_closed m = 0) (mistakes st))))"
    by (simp add: search_mistakes_def where_clause_status [OF s])
  have 4: "\<forall>rows. search_mistakes U f (ps\<lparr>p_status := Some s\<rparr>) st = Inr rows \<longrightarrow>
        (\<forall>m \<in> set rows. m_closed m = 0)"
  proof (intro allI impI ballI)
    fix rows m
    assume "search_mistakes U f (ps\<lparr>p_status := Some s\<rparr>) st = Inr rows" and m: "m \<in> set rows"
    then have "rows = take 50 (order_by_date_desc
         (filter (\<lambda>m. where_clause U (ps\<lparr>p_status := None\<rparr>) m \<and> m_closed m = 0) (mistakes st)))"
      by (simp add: search_mistakes_def where_clause_status [OF s] split: if_splits)
    with m have "m \<in> set (order_by_date_desc
         (filter (\<lambda>m. where_clause U (ps\<lparr>p_status := None\<rparr>) m \<and> m_closed m = 0) (mistakes st)))"
      by (metis in_set_takeD)
    then show "m_closed m = 0"
      by (simp add: order_by_date_desc_set)
  qed
  from 1 2 3 4 show "search_mistakes U f (ps\<lparr>p_status := Some s\<rparr>) st =
       search_mistakes U f (ps\<lparr>p_status := Some (str ''open'')\<rparr>) st \<and>
     search_mistakes U None (ps\<lparr>p_status := Some s\<rparr>) st =
       Inr (take 50 (order_by_date_desc
         (filter (\<lambda>m. where_clause U (ps\<lparr>p_status := None\<rparr>) m \<and> m_closed m = 0) (mistakes st)))) \<and>
     search_mistakes U None (no_filters\<lparr>p_status := Some s\<rparr>) st =
       Inr (take 50 (order_by_date_desc (filter (\<lambda>m. m_closed m = 0) (mistakes st)))) \<and>
     (\<forall>rows. search_mistakes U f (ps\<lparr>p_status := Some s\<rparr>) st = Inr rows \<longrightarrow>
        (\<forall>m \<in> set rows. m_closed m = 0))"
    by blast
qed

theorem search_status_not_closed_means_open_witness:
  "(str ''opne'') \<noteq> (str ''closed'') \<and>
   search_mistakes only_arabic_two None (no_filters\<lparr>p_status := Some (str ''opne'')\<rparr>) db2 = Inr [row2] \<and>
   search_mistakes only_arabic_two None (no_filters\<lparr>p_status := Some (str ''opne'')\<rparr>) db2 =
     search_mistakes only_arabic_two None (no_filters\<lparr>p_status := Some (str ''open'')\<rparr>) db2 \<and>
   m_closed row2 = 0 \<and> m_closed row1 = 1 \<and> mistakes db2 = [row1, row2]"
proof -
  have s: "(str ''opne'') \<noteq> (str ''closed'')" by simp
  from search_status_not_closed_means_open
    [where s = "str ''opne''" and U = only_arabic_two and f = None and ps = no_filters and st = db2] s
  have "search_mistakes only_arabic_two None (no_filters\<lparr>p_status := Some (str ''opne'')\<rparr>) db2 =
     search_mistakes only_arabic_two None (no_filters\<lparr>p_status := Some (str ''open'')\<rparr>) db2"
    by blast
  moreover have "search_mistakes only_arabic_two None (no_filters\<lparr>p_status := Some (str ''opne'')\<rparr>) db2 = Inr [row2]"
    by (rule search_examples)
  moreover have "m_closed row2 = 0" "m_closed row1 = 1"
    by (simp_all add: row1_def row2_def)
  moreover have "mistakes db2 = [row1, row2]"
    by (simp add: db2_eq)
  ultimately show ?thesis
    using s by blast
qed

section \<open>Search: the text filter\<close>

lemma take_eq_prefix: "(take (length t) s = t) = (\<exists>suf. s = t @ suf)"
  by (metis append_eq_conv_conj append_take_drop_id)

lemma contains_substring_iff: "contains_substring t s = (\<exists>pre suf. s = pre @ t @ suf)"
proof (induction s)
  case Nil
  then show ?case by auto
next
  case (Cons c cs)
  have "(\<exists>pre suf. c # cs = pre @ t @ suf) =
        ((\<exists>suf. c # cs = t @ suf) \<or> (\<exists>pre suf. cs = pre @ t @ suf))"
  proof
    assume "\<exists>pre suf. c # cs = pre @ t @ suf"
    then obtain pre suf where e: "c # cs = pre @ t @ suf" by blast
    show "(\<exists>suf. c # cs = t @ suf) \<or> (\<exists>pre suf. cs = pre @ t @ suf)"
    proof (cases pre)
      case Nil
      with e show ?thesis by auto
    next
      case (Cons p pre')
      with e have "cs = pre' @ t @ suf" by simp
      then show ?thesis by blast
    qed
  next
    assume "(\<exists>suf. c # cs = t @ suf) \<or> (\<exists>pre suf. cs = pre @ t @ suf)"
    then show "\<exists>pre suf. c # cs = pre @ t @ suf"
    proof
      assume "\<exists>suf. c # cs = t @ suf"
      then obtain suf where "c # cs = [] @ t @ suf" by auto
      then show ?thesis by blast
    next
      assume "\<exists>pre suf. cs = pre @ t @ suf"
      then obtain pre suf where "c # cs = (c # pre) @ t @ suf" by auto
      then show ?thesis by blast
    qed
  qed
  with Cons show ?case
    by (simp only: contains_substring.simps take_eq_prefix)
qed

lemma like_match_percent: "like_match (37 # ps) s = (\<exists>k\<le>length s. like_match ps (drop k s))"
proof (induction s)
  case Nil
  then show ?case by simp
next
  case (Cons c cs)
  have "(\<exists>k\<le>length (c # cs). like_match ps (drop k (c # cs))) =
        (like_match ps (c # cs) \<or> (\<exists>k\<le>length cs. like_match ps (drop k cs)))"
  proof
    assume "\<exists>k\<le>length (c # cs). like_match ps (drop k (c # cs))"
    then obtain k where k: "k \<le> length (c # cs)" "like_match ps (drop k (c # cs))" by blast
    show "like_match ps (c # cs) \<or> (\<exists>k\<le>length cs. like_match ps (drop k cs))"
    proof (cases k)
      case 0
      with k show ?thesis by simp
    next
      case (Suc j)
      with k have "j \<le> length cs \<and> like_match ps (drop j cs)" by simp
      then show ?thesis by blast
    qed
  next
    assume "like_match ps (c # cs) \<or> (\<exists>k\<le>length cs. like_match ps (drop k cs))"
    then show "\<exists>k\<le>length (c # cs). like_match ps (drop k (c # cs))"
    proof
      assume "like_match ps (c # cs)"
      then have "0 \<le> length (c # cs) \<and> like_match ps (drop 0 (c # cs))" by simp
      then show ?thesis by blast
    next
      assume "\<exists>k\<le>length cs. like_match ps (drop k cs)"
      then obtain k where "k \<le> length cs" "like_match ps (drop k cs)" by blast
      then have "Suc k \<le> length (c # cs) \<and> like_match ps (drop (Suc k) (c # cs))" by simp
      then show ?thesis by blast
    qed
  qed
  with Cons show ?case by simp
qed

lemma like_match_any: "like_match [37] s"
proof -
  have "length s \<le> length s \<and> like_match [] (drop (length s) s)" by simp
  then show ?thesis unfolding like_match_percent by blast
qed

lemma like_match_plain_prefix:
  "list_all plain_char t \<Longrightarrow> like_match (t @ q) s = (\<exists>r. s = t @ r \<and> like_match q r)"
proof (induction t arbitrary: s)
  case Nil
  then show ?case by simp
next
  case (Cons p ps)
  then have p: "plain_char p" and ps: "list_all plain_char ps" by simp_all
  show ?case
  proof (cases s)
    case Nil
    with p show ?thesis by (simp add: plain_char_def)
  next
    case (Cons c cs)
    have "(ascii_lower p = ascii_lower c) = (c = p)"
      using p by (auto simp: plain_char_def)
    with p Cons Cons.IH [OF ps, of cs] show ?thesis
      by (auto simp: plain_char_def)
  qed
qed

lemma like_match_same_prefix: "like_match q r \<Longrightarrow> like_match (t @ q) (t @ r)"
proof (induction t)
  case Nil
  then show ?case by simp
next
  case (Cons p ps)
  show ?case
  proof (cases "p = 37")
    case True
    have "0 \<le> length (ps @ r) \<and> like_match (ps @ q) (drop 0 (ps @ r))"
      using Cons by simp
    then have "like_match (37 # ps @ q) (ps @ r)"
      unfolding like_match_percent by blast
    with True show ?thesis by simp
  next
    case False
    with Cons show ?thesis by simp
  qed
qed

lemma drop_eq_append: "(\<exists>k\<le>length s. \<exists>r. drop k s = t @ r) = (\<exists>pre suf. s = pre @ t @ suf)"
proof
  assume "\<exists>k\<le>length s. \<exists>r. drop k s = t @ r"
  then obtain k r where "drop k s = t @ r" by blast
  then have "s = take k s @ t @ r" by (metis append_take_drop_id)
  then show "\<exists>pre suf. s = pre @ t @ suf" by blast
next
  assume "\<exists>pre suf. s = pre @ t @ suf"
  then obtain pre suf where s: "s = pre @ t @ suf" by blast
  then have "length pre \<le> length s \<and> drop (length pre) s = t @ suf" by simp
  then show "\<exists>k\<le>length s. \<exists>r. drop k s = t @ r" by blast
qed

lemma like_plain_is_substring:
  assumes "list_all plain_char t"
  shows "like_match (37 # t @ [37]) s = contains_substring t s"
proof -
  have "like_match (37 # t @ [37]) s = (\<exists>k\<le>length s. like_match (t @ [37]) (drop k s))"
    by (rule like_match_percent)
  also have "\<dots> = (\<exists>k\<le>length s. \<exists>r. drop k s = t @ r)"
    using like_match_plain_prefix [OF assms, of "[37]"] like_match_any by simp
  also have "\<dots> = contains_substring t s"
    by (simp only: drop_eq_append contains_substring_iff)
  finally show ?thesis .
qed

lemma substring_is_like:
  assumes "contains_substring t s"
  shows "like_match (37 # t @ [37]) s"
proof -
  from assms obtain pre suf where s: "s = pre @ t @ suf"
    unfolding contains_substring_iff by blast
  have "like_match (t @ [37]) (t @ suf)"
    using like_match_any by (rule like_match_same_prefix)
  then have "length pre \<le> length s \<and> like_match (t @ [37]) (drop (length pre) s)"
    using s by simp
  then show ?thesis
    unfolding like_match_percent by blast
qed


lemma digit_plain: "48 \<le> c \<Longrightarrow> c \<le> 57 \<Longrightarrow> plain_char c"
  by (auto simp: plain_char_def ascii_lower_def split: if_splits)

lemma ascii_digits_plain: "ascii_digits t \<Longrightarrow> list_all plain_char t"
  by (simp add: ascii_digits_def list_all_iff digit_plain)

lemma ascii_digits_no_nul: "ascii_digits t \<Longrightarrow> 0 \<notin> set t"
  by (auto simp: ascii_digits_def list_all_iff)

lemma ascii_digits_isdigit: "ascii_digits t \<Longrightarrow> isdigit U t"
  by (auto simp: ascii_digits_def isdigit_def digit_char_def list_all_iff)

text \<open>On ASCII text the digit table of the runtime plays no part.\<close>

lemma isdigit_ascii: "\<forall>c \<in> set t. c < 128 \<Longrightarrow> isdigit U t = ascii_digits t"
  by (auto simp: ascii_digits_def isdigit_def digit_char_def list_all_iff)

lemma c_string_percent: "0 \<notin> set t \<Longrightarrow> c_string (percent t) = 37 # t @ [37]"
proof -
  assume "0 \<notin> set t"
  then have "\<forall>c \<in> set t. c \<noteq> 0" by metis
  then have "\<forall>c \<in> set (37 # t @ [37]). c \<noteq> 0" by simp
  then have "takeWhile (\<lambda>c. c \<noteq> 0) (37 # t @ [37]) = 37 # t @ [37]"
    by (simp only: takeWhile_eq_all_conv)
  then show ?thesis
    by (simp add: c_string_def percent_def)
qed

lemma sql_like_digits:
  assumes "ascii_digits t"
  shows "sql_like (percent t) d = contains_substring t (c_string d)"
  using like_plain_is_substring [OF ascii_digits_plain [OF assms]]
    c_string_percent [OF ascii_digits_no_nul [OF assms]]
  by (simp add: sql_like_def)

lemma sql_like_contains:
  assumes "0 \<notin> set t" and "contains_substring t (c_string d)"
  shows "sql_like (percent t) d"
  using substring_is_like [OF assms(2)] c_string_percent [OF assms(1)]
  by (simp add: sql_like_def)

lemma where_clause_text_only:
  "where_clause U (no_filters\<lparr>p_text := Some t\<rparr>) = text_condition U t"
  by (rule ext) (simp add: no_filters_def where_clause_def)

lemma search_text_only:
  "search_mistakes U None (no_filters\<lparr>p_text := Some t\<rparr>) st =
     Inr (take 50 (order_by_date_desc (filter (text_condition U t) (mistakes st))))"
  by (simp add: search_mistakes_def where_clause_text_only)

lemma text_examples:
  "ascii_digits (str ''1'')"
  "ascii_digits (str ''7'')"
  "\<not> isdigit only_arabic_two (str ''LATE'')"
  "\<not> isdigit only_arabic_two (str ''room'')"
  "isdigit only_arabic_two arabic_two"
  "\<not> ascii_digits arabic_two"
  "0 \<notin> set (str ''room'')"
  by code_simp+

lemma pattern_examples:
  "pattern_fits (percent (str ''1''))"
  "pattern_fits (percent (str ''room''))"
  "pattern_fits (percent arabic_two)"
  by (simp_all add: pattern_fits_def percent_def utf8_len_def arabic_two_def)

lemma row_examples:
  "m_id row1 = dec_value (str ''1'')"
  "m_id row2 = 2"
  "m_id row2 \<noteq> - 1"
  "m_description row1 = str ''late delivery''"
  "\<not> contains_substring (str ''LATE'') (str ''late delivery'')"
  "\<not> contains_substring (str ''1'') (c_string (m_description row1))"
  "contains_substring (str ''room'') (c_string (m_description row2))"
  "contains_substring (str ''7'') (m_description row_nul)"
  "\<not> text_condition only_arabic_two (str ''7'') row_nul"
  "\<not> text_condition only_arabic_two arabic_two row2"
  by code_simp+

lemma search_LATE:
  "search_mistakes only_arabic_two None (no_filters\<lparr>p_text := Some (str ''LATE'')\<rparr>)
     \<lparr>users = [str ''A''], mistakes = [row1, row2], comments = [],
      mistakes_seq = 2, comments_seq = 0\<rparr> = Inr [row1]"
  by code_simp

text \<open>
  C5, as the claim states it, fails in three ways. \<open>LATE\<close> is not numeric and does not occur in
  the description \<open>late delivery\<close>, yet the search for the text \<open>LATE\<close> returns that incident,
  because \<open>LIKE\<close> compares ASCII letters without regard to case. The text \<open>7\<close> is numeric and
  occurs in the description "NUL, 7" of an incident with id 3, yet that incident does not
  satisfy the text condition, because \<open>LIKE\<close> reads the description up to its first NUL.
  The one-character text U+0662 is numeric for \<open>str.isdigit\<close> and denotes the number 2, yet
  incident 2 does not satisfy the text condition, because SQLite does not read the text as a
  number. (All texts but the last are ASCII, where the digit table plays no part.)
\<close>

theorem text_filter_counterexample:
  "\<not> isdigit only_arabic_two (str ''LATE'') \<and> m_description row1 = str ''late delivery'' \<and>
   \<not> contains_substring (str ''LATE'') (str ''late delivery'') \<and>
   search_mistakes only_arabic_two None (no_filters\<lparr>p_text := Some (str ''LATE'')\<rparr>) db2 = Inr [row1] \<and>
   isdigit only_arabic_two (str ''7'') \<and> contains_substring (str ''7'') (m_description row_nul) \<and>
   \<not> text_condition only_arabic_two (str ''7'') row_nul \<and>
   isdigit only_arabic_two arabic_two \<and> m_id row2 = 2 \<and>
   \<not> text_condition only_arabic_two arabic_two row2"
proof -
  have 1: "search_mistakes only_arabic_two None (no_filters\<lparr>p_text := Some (str ''LATE'')\<rparr>) db2 =
      Inr [row1]"
    unfolding db2_eq by (rule search_LATE)
  have 2: "isdigit only_arabic_two (str ''7'')"
    by (rule ascii_digits_isdigit) (rule text_examples)
  from 1 2 text_examples(3,5) row_examples(2,4,5,8,9,10) show ?thesis
    by (intro conjI)
qed

text \<open>
  C5, amended. Let the pattern \<open>'%' + t + '%'\<close> be within SQLite's limit. With only a text
  filter \<open>t\<close>, the search keeps the rows that satisfy the text condition. If \<open>t\<close> consists
  of the digits \<open>0\<close> to \<open>9\<close>, an incident satisfies it exactly when its description, read up
  to its first NUL character, contains \<open>t\<close> as a substring or its id is the number \<open>t\<close>. For
  every other \<open>t\<close> only the description match \<open>description LIKE '%t%'\<close> applies: if
  \<open>str.isdigit\<close> accepts \<open>t\<close> because of other Unicode digits, the id comparison fails on
  every incident; if \<open>str.isdigit\<close> rejects \<open>t\<close>, the id is compared with \<open>-1\<close>, which fails on
  every incident of a store built by the operations. The description match holds whenever
  the description, read up to its first NUL character, contains \<open>t\<close> (for \<open>t\<close> without NUL),
  but it is \<open>LIKE\<close>, not containment.
\<close>

theorem text_filter_matches:
  "pattern_fits (percent t) \<longrightarrow>
   search_mistakes U None (no_filters\<lparr>p_text := Some t\<rparr>) st =
     Inr (take 50 (order_by_date_desc (filter (text_condition U t) (mistakes st)))) \<and>
   (ascii_digits t \<longrightarrow>
      text_condition U t m =
        (contains_substring t (c_string (m_description m)) \<or> m_id m = dec_value t)) \<and>
   (isdigit U t \<and> \<not> ascii_digits t \<longrightarrow>
      text_condition U t m = sql_like (percent t) (m_description m)) \<and>
   (\<not> isdigit U t \<and> reachable st \<and> m \<in> set (mistakes st) \<longrightarrow>
      text_condition U t m = sql_like (percent t) (m_description m) \<and> m_id m \<noteq> - 1) \<and>
   (0 \<notin> set t \<and> contains_substring t (c_string (m_description m)) \<longrightarrow> text_condition U t m)"
proof (intro impI conjI)
  show "search_mistakes U None (no_filters\<lparr>p_text := Some t\<rparr>) st =
     Inr (take 50 (order_by_date_desc (filter (text_condition U t) (mistakes st))))"
    by (rule search_text_only)
next
  assume d: "ascii_digits t"
  then show "text_condition U t m =
        (contains_substring t (c_string (m_description m)) \<or> m_id m = dec_value t)"
    by (simp add: text_condition_def sql_like_digits ascii_digits_isdigit)
next
  assume "isdigit U t \<and> \<not> ascii_digits t"
  then show "text_condition U t m = sql_like (percent t) (m_description m)"
    by (simp add: text_condition_def)
next
  assume h: "\<not> isdigit U t \<and> reachable st \<and> m \<in> set (mistakes st)"
  then have "0 < m_id m"
    using reachable_db_inv [of st] by (simp add: db_inv_def)
  then show "m_id m \<noteq> - 1" by simp
  with h show "text_condition U t m = sql_like (percent t) (m_description m)"
    by (simp add: text_condition_def)
next
  assume "0 \<notin> set t \<and> contains_substring t (c_string (m_description m))"
  then have "sql_like (percent t) (m_description m)"
    by (simp add: sql_like_contains)
  then show "text_condition U t m"
    by (simp add: text_condition_def)
qed

theorem text_filter_matches_witness:
  "pattern_fits (percent (str ''1'')) \<and> ascii_digits (str ''1'') \<and> m_id row1 = dec_value (str ''1'') \<and>
   \<not> contains_substring (str ''1'') (c_string (m_description row1)) \<and>
   text_condition only_arabic_two (str ''1'') row1 \<and>
   pattern_fits (percent arabic_two) \<and> isdigit only_arabic_two arabic_two \<and> \<not> ascii_digits arabic_two \<and>
   text_condition only_arabic_two arabic_two row2 =
     sql_like (percent arabic_two) (m_description row2) \<and>
   pattern_fits (percent (str ''room'')) \<and> \<not> isdigit only_arabic_two (str ''room'') \<and>
   reachable db2 \<and> row2 \<in> set (mistakes db2) \<and>
   text_condition only_arabic_two (str ''room'') row2 =
     sql_like (percent (str ''room'')) (m_description row2) \<and>
   m_id row2 \<noteq> - 1 \<and> 0 \<notin> set (str ''room'') \<and>
   contains_substring (str ''room'') (c_string (m_description row2)) \<and>
   text_condition only_arabic_two (str ''room'') row2"
proof -
  note e = text_examples and r = row_examples and p = pattern_examples
  have d: "row2 \<in> set (mistakes db2)" by (simp add: db2_eq)
  note t1 = text_filter_matches [where U = only_arabic_two and t = "str ''1''" and st = db2 and m = row1]
  note t2 = text_filter_matches [where U = only_arabic_two and t = "str ''room''" and st = db2 and m = row2]
  note t3 = text_filter_matches [where U = only_arabic_two and t = arabic_two and st = db2 and m = row2]
  from t1 e(1) p(1) r(1) have 1: "text_condition only_arabic_two (str ''1'') row1" by blast
  from t2 e(4) p(2) d reachable_db2
  have 2: "text_condition only_arabic_two (str ''room'') row2 =
     sql_like (percent (str ''room'')) (m_description row2)" by blast
  from t2 p(2) e(7) r(7) have 3: "text_condition only_arabic_two (str ''room'') row2" by blast
  from t3 e(5,6) p(3) have 4: "text_condition only_arabic_two arabic_two row2 =
     sql_like (percent arabic_two) (m_description row2)" by blast
  from p(1) e(1) r(1,6) 1 p(3) e(5,6) 4 p(2) e(4) reachable_db2 d 2 r(3) e(7) r(7) 3 show ?thesis
    by (intro conjI)
qed

section \<open>The top-5 ranking and the totals\<close>



















section \<open>Per-user statistics\<close>

lemma left_join_nonempty: "left_join u ms \<noteq> []"
  by (simp add: left_join_def Let_def)

lemma users_stats_row_not_null:
  "fst (snd (users_stats_row ms u)) \<noteq> None \<and> fst (snd (snd (users_stats_row ms u))) \<noteq> None"
  by (simp add: users_stats_row_def Let_def sql_sum_def left_join_nonempty)

lemma users_stats_row_zero:
  assumes "\<forall>m \<in> set ms. m_user m \<noteq> u"
  shows "users_stats_row ms u = (u, Some 0, Some 0, 0)"
proof -
  have "filter (\<lambda>m. u = m_user m) ms = []"
    using assms by (auto simp: filter_empty_conv)
  then have "left_join u ms = [None]"
    by (simp add: left_join_def)
  then show ?thesis
    by (simp add: users_stats_row_def sql_sum_def sql_count_def closed_is_def)
qed

lemma store_rows_dom: "dom (store_rows rows stats) \<subseteq> dom stats \<union> fst ` set rows"
proof (induction rows arbitrary: stats)
  case Nil
  then show ?case by simp
next
  case (Cons r rows)
  obtain u t a c where r: "r = (u, t, a, c)" by (cases r) auto
  show ?case
    using Cons.IH [of "if u \<noteq> [] then stats(u \<mapsto> \<lparr>u_total = or0 (Some t), u_active = or0 a, u_closed = or0 c\<rparr>) else stats"]
    by (auto simp: r split: if_splits)
qed

lemma add_missing_users_keep:
  "u \<in> dom stats \<Longrightarrow> add_missing_users us stats u = stats u"
  by (induction us arbitrary: stats) auto

lemma add_missing_users_zero:
  "u \<in> set us \<Longrightarrow> u \<notin> dom stats \<Longrightarrow>
   add_missing_users us stats u = Some \<lparr>u_total = 0, u_active = 0, u_closed = 0\<rparr>"
proof (induction us arbitrary: stats)
  case Nil
  then show ?case by simp
next
  case (Cons x us)
  show ?case
  proof (cases "x = u")
    case True
    with Cons.prems show ?thesis
      by (simp add: add_missing_users_keep)
  next
    case False
    with Cons.prems have "u \<in> set us" by simp
    moreover have "u \<notin> dom (if x \<notin> dom stats then stats(x \<mapsto> \<lparr>u_total = 0, u_active = 0, u_closed = 0\<rparr>) else stats)"
      using False Cons.prems(2) by auto
    ultimately show ?thesis
      using Cons.IH by simp
  qed
qed

lemma add_missing_users_dom: "set us \<subseteq> dom (add_missing_users us stats)"
proof
  fix u assume u: "u \<in> set us"
  show "u \<in> dom (add_missing_users us stats)"
  proof (cases "u \<in> dom stats")
    case True
    then have "add_missing_users us stats u = stats u"
      by (rule add_missing_users_keep)
    with True show ?thesis by (simp add: domIff)
  next
    case False
    with u have "add_missing_users us stats u = Some \<lparr>u_total = 0, u_active = 0, u_closed = 0\<rparr>"
      by (rule add_missing_users_zero)
    then show ?thesis by (simp add: domIff)
  qed
qed

lemma mistake_stats_query_users: "fst ` set (mistake_stats_query ms) = m_user ` set ms"
  by (force simp: mistake_stats_query_def Let_def)

lemma stats_db3:
  "get_users_stats None db3 =
     Inr [(str ''A'', Some 1, Some 1, 2), (str ''B'', Some 0, Some 0, 0)]"
  by code_simp

text \<open>
  C8. On a store that answers, \<open>get_users_stats\<close> returns one row for every staff member, in
  name order, and no \<open>SUM\<close> in any row is \<open>NULL\<close>; \<open>get_mistake_stats\<close> returns a dictionary
  that has every staff member as a key. In both results a member who owns no incident has
  the three counts 0.
\<close>

theorem per_user_stats_cover_every_member:
  "(\<exists>rows. get_users_stats None st = Inr rows \<and>
      map fst rows = sort (remdups (users st)) \<and>
      (\<forall>row \<in> set rows. fst (snd row) \<noteq> None \<and> fst (snd (snd row)) \<noteq> None) \<and>
      (\<forall>u \<in> set (users st). (\<forall>m \<in> set (mistakes st). m_user m \<noteq> u) \<longrightarrow>
         (u, Some 0, Some 0, 0) \<in> set rows)) \<and>
   (\<exists>stats. get_mistake_stats None st = Inr stats \<and>
      set (users st) \<subseteq> dom stats \<and>
      (\<forall>u \<in> set (users st). (\<forall>m \<in> set (mistakes st). m_user m \<noteq> u) \<longrightarrow>
         stats u = Some \<lparr>u_total = 0, u_active = 0, u_closed = 0\<rparr>))"
proof -
  let ?rows = "map (users_stats_row (mistakes st)) (sort (remdups (users st)))"
  have g: "get_users_stats None st = Inr ?rows"
    by (simp add: get_users_stats_def)
  have f: "\<And>u. fst (users_stats_row (mistakes st) u) = u"
    by (simp add: users_stats_row_def Let_def)
  have 1: "map fst ?rows = sort (remdups (users st))"
    by (simp add: comp_def f)
  have 2: "\<forall>row \<in> set ?rows. fst (snd row) \<noteq> None \<and> fst (snd (snd row)) \<noteq> None"
    using users_stats_row_not_null by auto
  have 3: "\<forall>u \<in> set (users st). (\<forall>m \<in> set (mistakes st). m_user m \<noteq> u) \<longrightarrow>
         (u, Some 0, Some 0, 0) \<in> set ?rows"
  proof (intro ballI impI)
    fix u assume u: "u \<in> set (users st)" and "\<forall>m \<in> set (mistakes st). m_user m \<noteq> u"
    then have "users_stats_row (mistakes st) u = (u, Some 0, Some 0, 0)"
      by (simp add: users_stats_row_zero)
    with u show "(u, Some 0, Some 0, 0) \<in> set ?rows"
      by (metis image_eqI set_map set_remdups set_sort)
  qed
  let ?s0 = "store_rows (mistake_stats_query (mistakes st)) Map.empty"
  let ?stats = "add_missing_users (users st) ?s0"
  have m: "get_mistake_stats None st = Inr ?stats"
    by (simp add: get_mistake_stats_def)
  have 4: "set (users st) \<subseteq> dom ?stats"
    by (rule add_missing_users_dom)
  have 5: "\<forall>u \<in> set (users st). (\<forall>m \<in> set (mistakes st). m_user m \<noteq> u) \<longrightarrow>
         ?stats u = Some \<lparr>u_total = 0, u_active = 0, u_closed = 0\<rparr>"
  proof (intro ballI impI)
    fix u assume u: "u \<in> set (users st)" and n: "\<forall>m \<in> set (mistakes st). m_user m \<noteq> u"
    have "dom ?s0 \<subseteq> m_user ` set (mistakes st)"
      using store_rows_dom [of "mistake_stats_query (mistakes st)" Map.empty]
      by (simp add: mistake_stats_query_users)
    with n have "u \<notin> dom ?s0" by blast
    with u show "?stats u = Some \<lparr>u_total = 0, u_active = 0, u_closed = 0\<rparr>"
      by (rule add_missing_users_zero)
  qed
  from g 1 2 3 m 4 5 show ?thesis by blast
qed

theorem per_user_stats_cover_every_member_witness:
  "str ''B'' \<in> set (users db3) \<and> str ''B'' \<notin> m_user ` set (mistakes db3) \<and>
   get_users_stats None db3 =
     Inr [(str ''A'', Some 1, Some 1, 2), (str ''B'', Some 0, Some 0, 0)] \<and>
   projr (get_mistake_stats None db3) (str ''B'') =
     Some \<lparr>u_total = 0, u_active = 0, u_closed = 0\<rparr>"
proof -
  have u: "str ''B'' \<in> set (users db3)" and n: "str ''B'' \<notin> m_user ` set (mistakes db3)"
    by (simp_all add: db3_eq row1_def row2_def)
  have n': "\<forall>m \<in> set (mistakes db3). m_user m \<noteq> str ''B''"
    by (simp add: db3_eq row1_def row2_def)
  obtain stats where s: "get_mistake_stats None db3 = Inr stats"
      "\<forall>u \<in> set (users db3). (\<forall>m \<in> set (mistakes db3). m_user m \<noteq> u) \<longrightarrow>
         stats u = Some \<lparr>u_total = 0, u_active = 0, u_closed = 0\<rparr>"
    using per_user_stats_cover_every_member [of db3] by blast
  from s(2) u n' have "stats (str ''B'') = Some \<lparr>u_total = 0, u_active = 0, u_closed = 0\<rparr>"
    by blast
  with s(1) have "projr (get_mistake_stats None db3) (str ''B'') =
      Some \<lparr>u_total = 0, u_active = 0, u_closed = 0\<rparr>"
    by simp
  with u n stats_db3 show ?thesis by (intro conjI)
qed

section \<open>Store failures\<close>


text \<open>The three listings that read \<open>self.cursor\<close> raise on every input.\<close>

lemma self_cursor_listings_raise:
  "get_week_mistakes f year week st = Inl AttributeError"
  "get_month_mistakes f year month st = Inl AttributeError"
  "get_user_detailed_stats f user_name st = Inl AttributeError"
  by (simp_all add: get_week_mistakes_def get_month_mistakes_def get_user_detailed_stats_def)



end
